theory Spec2Isabelle
  imports Complex_Main "HOL-Library.Word" "HOL-Library.Sublist"
begin

unbundle bit_operations_syntax

section \<open>Utility functions (script.js, lines 10-37)\<close>

text \<open>
  \<^verbatim>\<open>bitsToUint8\<close> folds the bits into \<^verbatim>\<open>value\<close> with
  \<^verbatim>\<open>value = (value << 1) | bits[i]\<close>. Both operators work on 32-bit integers in
  JavaScript, so the accumulator is a 32-bit word.
\<close>

definition bitsToUint8 :: "32 word list \<Rightarrow> 32 word" where
  "bitsToUint8 bits = foldl (\<lambda>v b. push_bit 1 v OR b) 0 bits"

text \<open>
  \<^verbatim>\<open>sha256String\<close> encodes its argument with \<^verbatim>\<open>TextEncoder\<close> and hands the bytes
  to \<^verbatim>\<open>crypto.subtle.digest("SHA-256", ...)\<close>. Both belong to the browser, not to the
  repository, so they are parameters of the model. A JavaScript string is a list of
  16-bit code units; \<^verbatim>\<open>String.fromCharCode\<close> truncates each number to 16 bits.
\<close>

record platform =
  textEncode :: "16 word list \<Rightarrow> 8 word list"
  sha256 :: "8 word list \<Rightarrow> 8 word list"

definition fromCharCode :: "32 word list \<Rightarrow> 16 word list" where
  "fromCharCode nums = map ucast nums"

definition sha256String :: "platform \<Rightarrow> 16 word list \<Rightarrow> 8 word list" where
  "sha256String p str = sha256 p (textEncode p str)"

section \<open>The encoder of the browser\<close>




section \<open>The entropy pipeline: AudioRNG (script.js, lines 472-823)\<close>

text \<open>
  The record holds the four data buffers of \<^verbatim>\<open>AudioRNG\<close>, the capture handle that
  \<^verbatim>\<open>stop\<close> drops, and the fields of the \<^verbatim>\<open>FileGenerator\<close> object that
  \<^verbatim>\<open>processSamples\<close> and \<^verbatim>\<open>stop\<close> write through \<^verbatim>\<open>this.fileGenerator\<close>.
  Text written to DOM elements and the drawing calls are left out: they read the buffers
  and never write them. The renderer that \<^verbatim>\<open>drawBitMatrix\<close> drives has its own state
  and is modelled in its own section.
\<close>

record audio_rng =
  rawBitBuffer :: "32 word list"
  finalBitBuffer :: "32 word list"
  collectedNumbers :: "32 word list"
  uintArray :: "8 word list"
  analyser :: bool
  isGenerating :: bool
  requiredDataSize :: nat
  generatedFile :: "8 word list option"

text \<open>The constructors of \<^verbatim>\<open>AudioRNG\<close> (lines 493-503) and \<^verbatim>\<open>FileGenerator\<close> (lines 836-838).\<close>

definition initial :: audio_rng where
  "initial = \<lparr> rawBitBuffer = [], finalBitBuffer = [], collectedNumbers = [], uintArray = [],
     analyser = False, isGenerating = False, requiredDataSize = 0, generatedFile = None \<rparr>"

text \<open>
  \<^verbatim>\<open>FileGenerator.createFileFromData\<close> (lines 884-907) copies the first \<^verbatim>\<open>fileSize\<close>
  bytes of the pool into a \<^verbatim>\<open>Uint8Array\<close>; an index past the end of the pool reads
  \<^verbatim>\<open>undefined\<close>, which a \<^verbatim>\<open>Uint8Array\<close> stores as 0.
\<close>

definition createFileFromData :: "nat \<Rightarrow> audio_rng \<Rightarrow> audio_rng" where
  "createFileFromData fileSize s =
     s\<lparr> generatedFile :=
          Some (map (\<lambda>i. if i < length (uintArray s) then uintArray s ! i else 0) [0..<fileSize]),
        isGenerating := False \<rparr>"

text \<open>\<^verbatim>\<open>FileGenerator.updateProgress\<close> (lines 913-932).\<close>

definition updateProgress :: "audio_rng \<Rightarrow> audio_rng" where
  "updateProgress s =
     (if \<not> isGenerating s \<or> requiredDataSize s = 0 then s
      else if length (uintArray s) \<ge> requiredDataSize s
           then createFileFromData (requiredDataSize s) s
           else s)"

text \<open>
  The body of \<^verbatim>\<open>processSamples\<close> (lines 633-681) is three nested blocks. They are
  named here from the inside out. \<^verbatim>\<open>hashBatch\<close> is lines 654-673: the batch check, the
  digest, the append to the pool and the progress callback of the file generator.
  In \<open>hashBatch\<close>, \<open>assembleByte\<close>, \<open>processSample\<close> and \<open>processSamples\<close> the
  digest is there as soon as it is asked for: they describe a call that nothing
  interrupts. The method is \<^verbatim>\<open>async\<close> and waits for the digest at line 656; the
  suspension there, and the calls that start meanwhile, are modelled in the section on
  the suspension below.
\<close>

definition hashBatch :: "platform \<Rightarrow> audio_rng \<Rightarrow> audio_rng" where
  "hashBatch p s =
     (if length (collectedNumbers s) \<ge> 1000 then
        let asciiString = fromCharCode (take 1000 (collectedNumbers s));
            digest = sha256String p asciiString;
            s1 = s\<lparr> uintArray := uintArray s @ digest, collectedNumbers := [] \<rparr>
        in if isGenerating s1 then updateProgress s1 else s1
      else s)"

text \<open>\<^verbatim>\<open>assembleByte\<close> is lines 648-674: the test for eight bits and the byte it packs.\<close>

definition assembleByte :: "platform \<Rightarrow> audio_rng \<Rightarrow> audio_rng" where
  "assembleByte p s =
     (if length (finalBitBuffer s) = 8 then
        let uint8 = bitsToUint8 (finalBitBuffer s)
        in hashBatch p (s\<lparr> collectedNumbers := collectedNumbers s @ [uint8],
                           finalBitBuffer := [] \<rparr>)
      else s)"

text \<open>\<^verbatim>\<open>vonNeumann\<close> is lines 644-645: what the pair pushes onto \<^verbatim>\<open>finalBitBuffer\<close>.\<close>

definition vonNeumann :: "32 word \<Rightarrow> 32 word \<Rightarrow> 32 word list \<Rightarrow> 32 word list" where
  "vonNeumann b1 b2 fin =
     (if b1 = 0 \<and> b2 = 1 then fin @ [0]
      else if b1 = 1 \<and> b2 = 0 then fin @ [1]
      else fin)"

text \<open>The raw bit of a sample, \<^verbatim>\<open>sample & 1\<close> (line 636).\<close>

definition rawBit :: "8 word \<Rightarrow> 32 word" where
  "rawBit sample = ucast sample AND 1"

text \<open>
  One turn of the loop (lines 635-675): push the raw bit, and when the buffer holds two,
  shift both off its front.
\<close>

definition processSample :: "platform \<Rightarrow> 8 word \<Rightarrow> audio_rng \<Rightarrow> audio_rng" where
  "processSample p sample s =
     (case rawBitBuffer s @ [rawBit sample] of
        b1 # b2 # rest \<Rightarrow>
          assembleByte p (s\<lparr> rawBitBuffer := rest,
                              finalBitBuffer := vonNeumann b1 b2 (finalBitBuffer s) \<rparr>)
      | raw \<Rightarrow> s\<lparr> rawBitBuffer := raw \<rparr>)"

definition processSamples :: "platform \<Rightarrow> 8 word list \<Rightarrow> audio_rng \<Rightarrow> audio_rng" where
  "processSamples p data s = fold (processSample p) data s"

text \<open>
  \<^verbatim>\<open>start\<close> (lines 734-767) attaches the analyser when the microphone is granted, and
  \<^verbatim>\<open>stop\<close> (lines 772-814) drops it and puts the file generator back to idle. Neither
  touches a data buffer.
\<close>

definition start :: "bool \<Rightarrow> audio_rng \<Rightarrow> audio_rng" where
  "start granted s = (if granted then s\<lparr> analyser := True \<rparr> else s)"

definition stop :: "audio_rng \<Rightarrow> audio_rng" where
  "stop s = s\<lparr> analyser := False, isGenerating := False, requiredDataSize := 0 \<rparr>"

definition getRandomData :: "audio_rng \<Rightarrow> 8 word list" where
  "getRandomData s = uintArray s"

text \<open>
  \<^verbatim>\<open>resetDataBuffer\<close> is the reset of the pool. It is not in script.js; it is the
  method of \<^verbatim>\<open>AudioRNG\<close> in the waterfall revision of the script
  (unnamed/part_000, lines 1111-1122), where the password, number and file generators
  call it after they have produced their output. Its call of \<^verbatim>\<open>resetBitMatrix\<close> acts on
  the renderer, modelled below.
\<close>

definition resetDataBuffer :: "audio_rng \<Rightarrow> audio_rng" where
  "resetDataBuffer s =
     s\<lparr> rawBitBuffer := [], finalBitBuffer := [], collectedNumbers := [], uintArray := [] \<rparr>"

section \<open>The suspension at the digest (script.js, lines 656 and 726)\<close>















section \<open>Form values\<close>

text \<open>
  Every number read from a form goes through \<^verbatim>\<open>parseInt(el.value) || d\<close>. The result
  of \<^verbatim>\<open>parseInt\<close> is an integer or \<^verbatim>\<open>NaN\<close>, here \<open>None\<close>; \<^verbatim>\<open>||\<close> takes the default
  when its left side is \<^verbatim>\<open>NaN\<close> or 0.
\<close>

definition orDefault :: "int option \<Rightarrow> int \<Rightarrow> int" where
  "orDefault parsed d = (case parsed of None \<Rightarrow> d | Some n \<Rightarrow> if n = 0 then d else n)"

text \<open>The remainder operator of JavaScript takes the sign of the dividend.\<close>

definition jsRem :: "int \<Rightarrow> int \<Rightarrow> int" where
  "jsRem a b = sgn a * (\<bar>a\<bar> mod \<bar>b\<bar>)"

section \<open>FileGenerator.generateFile (script.js, lines 849-876)\<close>

definition fileSizeOf :: "int option \<Rightarrow> nat" where
  "fileSizeOf parsed = nat (max 1 (min 10485760 (orDefault parsed 1024)))"

definition generateFile :: "int option \<Rightarrow> audio_rng \<Rightarrow> audio_rng" where
  "generateFile fileSizeValue s =
     (let fileSize = fileSizeOf fileSizeValue
      in if length (uintArray s) < fileSize
         then s\<lparr> requiredDataSize := fileSize, isGenerating := True \<rparr>
         else createFileFromData fileSize s)"

section \<open>PasswordGenerator.generatePassword (script.js, lines 439-465)\<close>

record password_form =
  chkUpper :: bool
  chkLower :: bool
  chkNums :: bool
  chkSyms :: bool
  pwLengthValue :: "int option"

text \<open>What the method leaves in \<^verbatim>\<open>passwordBox.value\<close>: one of its two messages or the password.\<close>

datatype password_box =
    PwNotEnoughData
  | PwNoCharset
  | PwText string

definition charsetOf :: "password_form \<Rightarrow> string" where
  "charsetOf f =
     (if chkUpper f then ''ABCDEFGHIJKLMNOPQRSTUVWXYZ'' else []) @
     (if chkLower f then ''abcdefghijklmnopqrstuvwxyz'' else []) @
     (if chkNums f then ''0123456789'' else []) @
     (if chkSyms f then ''!@#$%^&*()-_=+[]{};:,.<>?'' else [])"

definition pwLengthOf :: "int option \<Rightarrow> nat" where
  "pwLengthOf parsed = nat (max 8 (min 64 (orDefault parsed 16)))"

text \<open>
  One turn of the loop of lines 459-462. The index is
  \<^verbatim>\<open>(i + uintArray.length - pwLength) % uintArray.length\<close>. Reading an array at a
  negative index gives \<^verbatim>\<open>undefined\<close>; then \<^verbatim>\<open>r % charset.length\<close> is \<^verbatim>\<open>NaN\<close>,
  \<^verbatim>\<open>charset[NaN]\<close> is \<^verbatim>\<open>undefined\<close>, and \<^verbatim>\<open>password += undefined\<close> appends the nine
  characters of the word.
\<close>

definition passwordPiece :: "string \<Rightarrow> 8 word list \<Rightarrow> nat \<Rightarrow> nat \<Rightarrow> string" where
  "passwordPiece charset arr pwLength i =
     (let idx = jsRem (int i + int (length arr) - int pwLength) (int (length arr))
      in if 0 \<le> idx \<and> idx < int (length arr)
         then [charset ! (unat (arr ! nat idx) mod length charset)]
         else ''undefined'')"

definition generatePassword :: "password_form \<Rightarrow> 8 word list \<Rightarrow> password_box" where
  "generatePassword f arr =
     (if length arr < 32 then PwNotEnoughData
      else let charset = charsetOf f
           in if length charset = 0 then PwNoCharset
              else let pwLength = pwLengthOf (pwLengthValue f)
                   in PwText (concat (map (passwordPiece charset arr pwLength) [0..<pwLength])))"

section \<open>RandomNumberGenerator.generateNumbers (script.js, lines 983-1027)\<close>

record numbers_form =
  numCountValue :: "int option"
  numMinValue :: "int option"
  numMaxValue :: "int option"

text \<open>
  What the method leaves in \<^verbatim>\<open>numbersBox.value\<close>: one of its two messages or the numbers.
  The numbers are returned as computed in lines 1000-1005; their rendering as hex, decimal
  or binary text (lines 1007-1025) is left out.
\<close>

datatype numbers_box =
    NumNotEnoughData
  | NumRangeError
  | NumValues "int list"

definition numCountOf :: "int option \<Rightarrow> nat" where
  "numCountOf parsed = nat (max 1 (min 10000 (orDefault parsed 100)))"

definition generateNumbers :: "numbers_form \<Rightarrow> 8 word list \<Rightarrow> numbers_box" where
  "generateNumbers f arr =
     (if length arr < 32 then NumNotEnoughData
      else let count = numCountOf (numCountValue f);
               minVal = orDefault (numMinValue f) 0;
               maxVal = orDefault (numMaxValue f) 255
           in if minVal \<ge> maxVal then NumRangeError
              else NumValues (map (\<lambda>i. let randomValue = uint (arr ! (i mod length arr))
                                        in minVal + jsRem randomValue (maxVal - minVal + 1))
                                  [0..<count]))"

section \<open>The operations on the pipeline state\<close>

text \<open>
  The operations that the page runs on the state above. The password and the number
  generators are handed the pool by \<^verbatim>\<open>getRandomData\<close>; they read it and write their
  text boxes only, so they leave the state as it is. \<open>ResetDataBuffer\<close> is not an
  operation of script.js: it is the reset of the later revision, taken in so that what
  is proved of every reachable state also holds after a reset.
\<close>

datatype rng_op =
    Start bool
  | Stop
  | ProcessSamples "8 word list"
  | GeneratePassword password_form
  | GenerateNumbers numbers_form
  | GenerateFile "int option"
  | ResetDataBuffer

fun exec :: "platform \<Rightarrow> rng_op \<Rightarrow> audio_rng \<Rightarrow> audio_rng" where
  "exec p (Start granted) s = start granted s"
| "exec p Stop s = stop s"
| "exec p (ProcessSamples data) s = processSamples p data s"
| "exec p (GeneratePassword f) s = s"
| "exec p (GenerateNumbers f) s = s"
| "exec p (GenerateFile v) s = generateFile v s"
| "exec p ResetDataBuffer s = resetDataBuffer s"

inductive reachable :: "platform \<Rightarrow> audio_rng \<Rightarrow> bool" for p :: platform where
  reachable_initial: "reachable p initial"
| reachable_exec: "reachable p s \<Longrightarrow> reachable p (exec p op s)"

section \<open>The pool and its consumers in unnamed/part_000 (lines 815-1286)\<close>









section \<open>The bit matrix of script.js: VisualizationManager (lines 43-419)\<close>

text \<open>
  The renderer of script.js paints the bits of the pool into a grid of fixed size, in
  place, a bounded chunk per call. The record has the fields that its control flow reads
  and writes. \<open>surface\<close> says that the canvas and its context are both there;
  \<open>imageData\<close> says that the pixel buffer has been allocated. The pixels themselves and
  the drawing calls are left out: nothing reads them back. A cell of \<^verbatim>\<open>bitMatrixData\<close>
  is \<open>None\<close> where a JavaScript array has a hole.
\<close>

record viz =
  surface :: bool
  bitMatrixData :: "32 word option list"
  lastBitCount :: nat
  updateThrottle :: int
  updateInterval :: int
  refreshCycle :: nat
  isMatrixComplete :: bool
  imageData :: bool
  updateCount :: nat
  averageUpdateTime :: real
  adaptiveInterval :: bool

text \<open>The size is set once, in the constructor (lines 53-54), and never assigned again.\<close>

definition matrixWidth :: nat where
  "matrixWidth = 200"

definition matrixHeight :: nat where
  "matrixHeight = 100"

definition initial_viz :: viz where
  "initial_viz = \<lparr> surface = True,
     bitMatrixData = replicate (matrixWidth * matrixHeight) (Some 0),
     lastBitCount = 0, updateThrottle = 0, updateInterval = 50, refreshCycle = 0,
     isMatrixComplete = False, imageData = False, updateCount = 0,
     averageUpdateTime = 0, adaptiveInterval = True \<rparr>"

text \<open>\<^verbatim>\<open>uint8ArrayToBits\<close> (lines 137-157): eight bits a byte, the high bit first.\<close>

definition uint8ArrayToBits :: "8 word list \<Rightarrow> 32 word list" where
  "uint8ArrayToBits arr =
     concat (map (\<lambda>byte. map (\<lambda>k. drop_bit k (ucast byte) AND 1) [7, 6, 5, 4, 3, 2, 1, 0]) arr)"

text \<open>Reading and writing a JavaScript array: a read past the end is \<^verbatim>\<open>undefined\<close>, a write past the end extends the array with holes.\<close>

definition arrayGet :: "'a option list \<Rightarrow> nat \<Rightarrow> 'a option" where
  "arrayGet xs i = (if i < length xs then xs ! i else None)"

definition arraySet :: "'a option list \<Rightarrow> nat \<Rightarrow> 'a \<Rightarrow> 'a option list" where
  "arraySet xs i v =
     (if i < length xs then xs[i := Some v]
      else xs @ replicate (i - length xs) None @ [Some v])"

text \<open>\<^verbatim>\<open>calculateOptimalChunkSize\<close> (lines 284-295); the three results are 1000, 3000 and 2000.\<close>

definition calculateOptimalChunkSize :: "viz \<Rightarrow> nat" where
  "calculateOptimalChunkSize v =
     (let baseChunkSize = 2000
      in if \<not> adaptiveInterval v then baseChunkSize
         else if averageUpdateTime v > 16 then max 500 (baseChunkSize div 2)
         else if averageUpdateTime v < 8 then min 5000 (baseChunkSize * 3 div 2)
         else baseChunkSize)"

text \<open>One turn of the loop of \<^verbatim>\<open>updatePixelsBatch\<close> (lines 304-333), and the loop.\<close>

definition updatePixel :: "32 word list \<Rightarrow> nat \<Rightarrow> viz \<Rightarrow> viz" where
  "updatePixel bits bitIndex v =
     (let row = bitIndex div matrixWidth;
          col = bitIndex mod matrixWidth;
          bitValue = (if bitIndex < length bits then bits ! bitIndex else 0);
          dataIndex = row * matrixWidth + col
      in if arrayGet (bitMatrixData v) dataIndex \<noteq> Some bitValue
         then v\<lparr> bitMatrixData := arraySet (bitMatrixData v) dataIndex bitValue \<rparr>
         else v)"

definition updatePixelsBatch :: "32 word list \<Rightarrow> nat \<Rightarrow> nat \<Rightarrow> viz \<Rightarrow> viz" where
  "updatePixelsBatch bits startBitIndex endBitIndex v =
     fold (updatePixel bits) [startBitIndex..<endBitIndex] v"

text \<open>\<^verbatim>\<open>performFullRefresh\<close> (lines 258-279).\<close>

definition performFullRefresh :: "viz \<Rightarrow> viz" where
  "performFullRefresh v =
     v\<lparr> refreshCycle := refreshCycle v + 1, isMatrixComplete := False, lastBitCount := 0,
        bitMatrixData := map (\<lambda>_. Some 0) (bitMatrixData v) \<rparr>"

text \<open>
  \<^verbatim>\<open>updatePerformanceMetrics\<close> (lines 353-368). The two readings of
  \<^verbatim>\<open>performance.now()\<close> are arguments. JavaScript computes the average in floating
  point; here it is a real number.
\<close>

definition updatePerformanceMetrics :: "real \<Rightarrow> real \<Rightarrow> viz \<Rightarrow> viz" where
  "updatePerformanceMetrics startTime endTime v =
     (let updateTime = endTime - startTime;
          n = updateCount v + 1;
          avg = (averageUpdateTime v * (real n - 1) + updateTime) / real n;
          v1 = v\<lparr> updateCount := n, averageUpdateTime := avg \<rparr>
      in if adaptiveInterval v1 then
           (if avg > 20 then v1\<lparr> updateInterval := min 200 (updateInterval v1 + 10) \<rparr>
            else if avg < 5 then v1\<lparr> updateInterval := max 30 (updateInterval v1 - 5) \<rparr>
            else v1)
         else v1)"

text \<open>
  \<^verbatim>\<open>drawBitMatrix\<close> (lines 163-224). \<open>now\<close> is the reading of \<^verbatim>\<open>Date.now()\<close>,
  \<open>startTime\<close> and \<open>endTime\<close> are the readings of \<^verbatim>\<open>performance.now()\<close> at the
  entry and in \<^verbatim>\<open>updatePerformanceMetrics\<close>.
\<close>

definition drawBitMatrix :: "8 word list \<Rightarrow> int \<Rightarrow> real \<Rightarrow> real \<Rightarrow> viz \<Rightarrow> viz" where
  "drawBitMatrix arr now startTime endTime v =
     (if \<not> surface v then v
      else if adaptiveInterval v \<and> now - updateThrottle v < updateInterval v then v
      else
        let v1 = v\<lparr> updateThrottle := now \<rparr>;
            bits = uint8ArrayToBits arr;
            currentBitCount = length bits;
            maxMatrixBits = matrixWidth * matrixHeight;
            v2 = (if \<not> imageData v1 then v1\<lparr> imageData := True \<rparr> else v1)
        in if lastBitCount v2 \<ge> maxMatrixBits \<and> currentBitCount > maxMatrixBits
           then performFullRefresh v2
           else if currentBitCount \<le> lastBitCount v2 \<or> isMatrixComplete v2 then v2
           else
             let chunkSize = calculateOptimalChunkSize v2;
                 newBitsCount = min (currentBitCount - lastBitCount v2) chunkSize;
                 startBitIndex = lastBitCount v2;
                 endBitIndex = min (startBitIndex + newBitsCount) maxMatrixBits;
                 v3 = updatePixelsBatch bits startBitIndex endBitIndex v2;
                 v4 = v3\<lparr> lastBitCount := min endBitIndex currentBitCount \<rparr>;
                 v5 = (if lastBitCount v4 \<ge> maxMatrixBits
                       then v4\<lparr> isMatrixComplete := True \<rparr> else v4)
             in updatePerformanceMetrics startTime endTime v5)"

text \<open>\<^verbatim>\<open>resetBitMatrix\<close> (lines 399-418).\<close>

definition resetBitMatrix :: "viz \<Rightarrow> viz" where
  "resetBitMatrix v =
     v\<lparr> bitMatrixData := replicate (matrixWidth * matrixHeight) (Some 0),
        lastBitCount := 0, isMatrixComplete := False, refreshCycle := 0, imageData := False,
        updateCount := 0, averageUpdateTime := 0, updateInterval := 50 \<rparr>"

text \<open>
  A run of the renderer on a pool that does not change: one call for each reading of the
  three clocks.
\<close>

type_synonym tick = "int \<times> real \<times> real"

definition drawTick :: "8 word list \<Rightarrow> tick \<Rightarrow> viz \<Rightarrow> viz" where
  "drawTick arr t v = (case t of (now, startTime, endTime) \<Rightarrow> drawBitMatrix arr now startTime endTime v)"

definition drawRun :: "8 word list \<Rightarrow> tick list \<Rightarrow> viz \<Rightarrow> viz" where
  "drawRun arr ticks v = fold (drawTick arr) ticks v"

text \<open>
  The calls of a run pass the throttle when each reading of \<^verbatim>\<open>Date.now()\<close> is at least
  200 ms, the largest value \<^verbatim>\<open>updateInterval\<close> takes, after the one before.
\<close>

fun spaced :: "int \<Rightarrow> tick list \<Rightarrow> bool" where
  "spaced prev [] = True"
| "spaced prev ((now, t) # ts) = (prev + 200 \<le> now \<and> spaced now ts)"

text \<open>
  Two predicates for the proofs. A call is throttled when line 170 returns. A renderer
  tracks a pool of \<open>T\<close> bits when it has its surface, its interval is within the
  bound of line 363, its completion flag is set only at capacity, and its cursor has not
  passed \<open>T\<close>.
\<close>

definition throttled :: "int \<Rightarrow> viz \<Rightarrow> bool" where
  "throttled now v \<longleftrightarrow> adaptiveInterval v \<and> now - updateThrottle v < updateInterval v"

definition tracking :: "nat \<Rightarrow> viz \<Rightarrow> bool" where
  "tracking T v \<longleftrightarrow> surface v \<and> updateInterval v \<le> 200 \<and>
     (isMatrixComplete v \<longrightarrow> matrixWidth * matrixHeight \<le> lastBitCount v) \<and>
     lastBitCount v \<le> T"

section \<open>The waterfall of unnamed/part_000: VisualizationManager (lines 512-810)\<close>

text \<open>
  The later revision of the script scrolls: a full row of bits is committed at one edge of
  an offscreen canvas and the other rows move by one. The offscreen canvas is a list of
  rows of pixels, the top row first.
\<close>

type_synonym rgb = "8 word \<times> 8 word \<times> 8 word"
type_synonym pixel = "8 word \<times> 8 word \<times> 8 word \<times> 8 word"

record waterfall =
  canvas :: bool
  matrixWidth_wf :: nat
  matrixHeight_wf :: nat
  newestOnTop :: bool
  colorZero :: rgb
  colorOne :: rgb
  offscreen :: "pixel list list"
  rowAccumulator :: "32 word list"
  lastBitCount_wf :: nat

text \<open>
  The suffix tells the fields of this revision from those of script.js above.
  \<open>canvas\<close> says that the visible canvas and its context are both there.
\<close>

definition whitePixel :: pixel where
  "whitePixel = (255, 255, 255, 255)"

text \<open>\<^verbatim>\<open>_clearOffscreenToWhite\<close> (lines 587-592) and \<^verbatim>\<open>resetBitMatrix\<close> (lines 784-792).\<close>

definition clearOffscreenToWhite :: "waterfall \<Rightarrow> waterfall" where
  "clearOffscreenToWhite w =
     w\<lparr> offscreen := replicate (matrixHeight_wf w) (replicate (matrixWidth_wf w) whitePixel) \<rparr>"

definition resetBitMatrix_wf :: "waterfall \<Rightarrow> waterfall" where
  "resetBitMatrix_wf w = clearOffscreenToWhite (w\<lparr> lastBitCount_wf := 0, rowAccumulator := [] \<rparr>)"

text \<open>
  \<^verbatim>\<open>setMatrixSize\<close> (lines 794-809); \<^verbatim>\<open>cols | 0\<close> and \<^verbatim>\<open>rows | 0\<close> are signed 32-bit
  integers. The pixel scale only concerns the visible canvas.
\<close>

definition setMatrixSize :: "32 word \<Rightarrow> 32 word \<Rightarrow> waterfall \<Rightarrow> waterfall" where
  "setMatrixSize cols rows w =
     resetBitMatrix_wf (w\<lparr> matrixWidth_wf := nat (max 1 (sint cols)), matrixHeight_wf := nat (max 1 (sint rows)) \<rparr>)"

text \<open>The constructor (lines 513-563).\<close>

definition initial_waterfall :: waterfall where
  "initial_waterfall = \<lparr> canvas = True, matrixWidth_wf = 200, matrixHeight_wf = 100, newestOnTop = True,
     colorZero = (255, 255, 255), colorOne = (0, 0, 0),
     offscreen = replicate 100 (replicate 200 whitePixel),
     rowAccumulator = [], lastBitCount_wf = 0 \<rparr>"

text \<open>
  \<^verbatim>\<open>commitRow\<close> (lines 648-678). The row image takes the colour of each bit, a missing
  bit counting as 0. Then \<^verbatim>\<open>drawImage\<close> copies the canvas onto itself one row lower
  (rows 0 to H-2 go to rows 1 to H-1) and the row image is put at row 0; or one row
  higher, and the row image is put at row H-1.
\<close>

definition bitPixel :: "waterfall \<Rightarrow> bool \<Rightarrow> pixel" where
  "bitPixel w truthy =
     (case (if truthy then colorOne w else colorZero w) of (r, g, b) \<Rightarrow> (r, g, b, 255))"

definition rowPixels :: "waterfall \<Rightarrow> 32 word list \<Rightarrow> pixel list" where
  "rowPixels w bitsRow =
     map (\<lambda>x. bitPixel w (x < length bitsRow \<and> bitsRow ! x \<noteq> 0)) [0..<matrixWidth_wf w]"

definition commitRow :: "32 word list \<Rightarrow> waterfall \<Rightarrow> waterfall" where
  "commitRow bitsRow w =
     (let rowImage = rowPixels w bitsRow; old = offscreen w; h = matrixHeight_wf w
      in if newestOnTop w
         then w\<lparr> offscreen := map (\<lambda>y. if y = 0 then rowImage else old ! (y - 1)) [0..<h] \<rparr>
         else w\<lparr> offscreen := map (\<lambda>y. if y = h - 1 then rowImage else old ! (y + 1)) [0..<h] \<rparr>)"

text \<open>\<^verbatim>\<open>pullBit\<close> (lines 681-685).\<close>

definition pullBit :: "8 word list \<Rightarrow> nat \<Rightarrow> 32 word" where
  "pullBit arr bitIndex =
     (let byteIndex = bitIndex div 8; bitIndexInByte = 7 - bitIndex mod 8
      in drop_bit bitIndexInByte (ucast (arr ! byteIndex)) AND 1)"

text \<open>One turn of the loop of lines 688-696, and \<^verbatim>\<open>_drawBitWaterfall\<close> (lines 637-708).\<close>

definition accumulateBit :: "8 word list \<Rightarrow> nat \<Rightarrow> waterfall \<Rightarrow> waterfall" where
  "accumulateBit arr i w =
     (let acc = rowAccumulator w @ [pullBit arr i]
      in if length acc \<ge> matrixWidth_wf w
         then commitRow (take (matrixWidth_wf w) acc) (w\<lparr> rowAccumulator := drop (matrixWidth_wf w) acc \<rparr>)
         else w\<lparr> rowAccumulator := acc \<rparr>)"

definition drawBitWaterfall :: "8 word list \<Rightarrow> waterfall \<Rightarrow> waterfall" where
  "drawBitWaterfall arr w =
     (if \<not> canvas w then w
      else let totalBits = length arr * 8
           in if totalBits \<le> lastBitCount_wf w then w
              else (fold (accumulateBit arr) [lastBitCount_wf w..<totalBits] w)
                     \<lparr> lastBitCount_wf := totalBits \<rparr>)"

text \<open>The waterfall of width 4 and height 2, as \<^verbatim>\<open>setMatrixSize(4, 2)\<close> leaves it.\<close>

definition smallWaterfall :: waterfall where
  "smallWaterfall = setMatrixSize 4 2 initial_waterfall"

section \<open>The extractor as the specification words it\<close>

text \<open>
  The specification describes the extractor on its own: the raw bits are paired in
  arrival order, without overlap; a pair (0,1) gives 0, a pair (1,0) gives 1, a pair
  (0,0) or (1,1) gives nothing; an odd bit at the end is carried. \<open>debias\<close> and
  \<open>leftover\<close> follow these words, not the code.
\<close>

fun debias :: "32 word list \<Rightarrow> 32 word list" where
  "debias (b1 # b2 # bs) =
     (if b1 = 0 \<and> b2 = 1 then [0] else if b1 = 1 \<and> b2 = 0 then [1] else []) @ debias bs"
| "debias bs = []"

fun leftover :: "32 word list \<Rightarrow> 32 word list" where
  "leftover (b1 # b2 # bs) = leftover bs"
| "leftover bs = bs"

text \<open>
  Handing one debiased bit to the byte assembler is the push onto \<^verbatim>\<open>finalBitBuffer\<close>
  followed by the block \<open>assembleByte\<close>; \<open>feed\<close> hands over a sequence of bits in
  order.
\<close>

definition deliver :: "platform \<Rightarrow> 32 word \<Rightarrow> audio_rng \<Rightarrow> audio_rng" where
  "deliver p b s = assembleByte p (s\<lparr> finalBitBuffer := finalBitBuffer s @ [b] \<rparr>)"

definition feed :: "platform \<Rightarrow> 32 word list \<Rightarrow> audio_rng \<Rightarrow> audio_rng" where
  "feed p bits s = fold (deliver p) bits s"

text \<open>
  A platform to run the model on concrete inputs: the encoder keeps the low byte of each
  code unit and the digest is 32 zero bytes.
\<close>

definition zeroPlatform :: platform where
  "zeroPlatform = \<lparr> textEncode = map ucast, sha256 = (\<lambda>m. replicate 32 0) \<rparr>"


section \<open>Concrete states and inputs\<close>

text \<open>
  States and inputs on which the theorems below are run: a state one raw bit short of a
  byte, a state that holds one digest, and the samples 0,1 repeated, each pair of which
  gives the debiased bit 0. \<open>nearBatch\<close> is one raw bit short of a byte and one byte
  short of a batch, \<open>warmUp\<close> are 15999 samples that lead to it from the initial state,
  and \<open>waitingFile\<close> is the same state with a file of 32 bytes asked for.
\<close>

definition sevenBits :: audio_rng where
  "sevenBits = initial\<lparr> rawBitBuffer := [1], finalBitBuffer := [1, 0, 1, 1, 0, 0, 1] \<rparr>"




definition zeroOnes :: "nat \<Rightarrow> 8 word list" where
  "zeroOnes n = concat (replicate n [0, 1])"


text \<open>
  A password form with the lower-case letters alone, a numbers form asking for three
  numbers, and a pool of 32 bytes, the length of one digest.
\<close>

definition lowerOnly :: "int option \<Rightarrow> password_form" where
  "lowerOnly len = \<lparr> chkUpper = False, chkLower = True, chkNums = False, chkSyms = False,
                      pwLengthValue = len \<rparr>"

definition bytes32 :: "8 word list" where
  "bytes32 = [0, 1, 2, 3, 4, 5, 6, 7, 8, 9, 10, 11, 12, 13, 14, 15, 16, 17, 18, 19, 20, 21, 22,
              23, 24, 25, 26, 27, 28, 29, 30, 31]"

definition rangeForm :: "int option \<Rightarrow> int option \<Rightarrow> numbers_form" where
  "rangeForm lo hi = \<lparr> numCountValue = Some 3, numMinValue = lo, numMaxValue = hi \<rparr>"

section \<open>The pipeline: proofs\<close>

lemma updateProgress_fields [simp]:
  "rawBitBuffer (updateProgress s) = rawBitBuffer s"
  "finalBitBuffer (updateProgress s) = finalBitBuffer s"
  "collectedNumbers (updateProgress s) = collectedNumbers s"
  "uintArray (updateProgress s) = uintArray s"
  "analyser (updateProgress s) = analyser s"
  by (simp_all add: updateProgress_def createFileFromData_def)

lemmas pipeline_defs =
  assembleByte_def hashBatch_def updateProgress_def createFileFromData_def Let_def

lemma hashBatch_fields [simp]:
  "rawBitBuffer (hashBatch p s) = rawBitBuffer s"
  "finalBitBuffer (hashBatch p s) = finalBitBuffer s"
  "analyser (hashBatch p s) = analyser s"
  by (simp_all add: hashBatch_def Let_def)

lemma assembleByte_raw:
  "assembleByte p (s\<lparr> rawBitBuffer := r \<rparr>) = (assembleByte p s)\<lparr> rawBitBuffer := r \<rparr>"
  by (simp add: pipeline_defs)

lemma assembleByte_rawBitBuffer [simp]:
  "rawBitBuffer (assembleByte p s) = rawBitBuffer s"
  by (simp add: assembleByte_def Let_def)

lemma assembleByte_finalBitBuffer:
  "finalBitBuffer (assembleByte p s) = (if length (finalBitBuffer s) = 8 then [] else finalBitBuffer s)"
  by (simp add: assembleByte_def Let_def)

lemma assembleByte_idle: "length (finalBitBuffer s) < 8 \<Longrightarrow> assembleByte p s = s"
  by (simp add: assembleByte_def)

lemma deliver_raw [simp]:
  "deliver p b (s\<lparr> rawBitBuffer := r \<rparr>) = (deliver p b s)\<lparr> rawBitBuffer := r \<rparr>"
  by (simp add: deliver_def pipeline_defs)

lemma deliver_final_bound:
  "length (finalBitBuffer s) < 8 \<Longrightarrow> length (finalBitBuffer (deliver p b s)) < 8"
  by (simp add: deliver_def assembleByte_finalBitBuffer)

lemma feed_raw:
  "feed p bits (s\<lparr> rawBitBuffer := r \<rparr>) = (feed p bits s)\<lparr> rawBitBuffer := r \<rparr>"
  by (induction bits arbitrary: s) (simp_all add: feed_def)

lemma feed_final_bound:
  "length (finalBitBuffer s) < 8 \<Longrightarrow> length (finalBitBuffer (feed p bits s)) < 8"
  by (induction bits arbitrary: s) (simp_all add: feed_def deliver_final_bound)

lemma feed_append: "feed p (as @ bs) s = feed p bs (feed p as s)"
  by (simp add: feed_def)

lemma processSample_empty:
  "rawBitBuffer s = [] \<Longrightarrow> processSample p x s = s\<lparr> rawBitBuffer := [rawBit x] \<rparr>"
  by (simp add: processSample_def)

lemma vonNeumann_emit:
  "vonNeumann b1 b2 fin = fin @ debias [b1, b2]"
  by (simp add: vonNeumann_def)

lemma processSample_pair:
  assumes "rawBitBuffer s = [c]" and "length (finalBitBuffer s) < 8"
  shows "processSample p x s = (feed p (debias [c, rawBit x]) s)\<lparr> rawBitBuffer := [] \<rparr>"
proof -
  have "processSample p x s =
      (assembleByte p (s\<lparr> finalBitBuffer := vonNeumann c (rawBit x) (finalBitBuffer s) \<rparr>))\<lparr> rawBitBuffer := [] \<rparr>"
    using assms(1) by (simp add: processSample_def pipeline_defs)
  also have "assembleByte p (s\<lparr> finalBitBuffer := vonNeumann c (rawBit x) (finalBitBuffer s) \<rparr>)
      = feed p (debias [c, rawBit x]) s"
    using assms(2) by (simp add: vonNeumann_def feed_def deliver_def assembleByte_idle)
  finally show ?thesis .
qed

lemma debias_pair: "debias (b1 # b2 # bs) = debias [b1, b2] @ debias bs"
  by simp

lemma processSamples_feed:
  assumes "length (rawBitBuffer s) \<le> 1" and "length (finalBitBuffer s) < 8"
  shows "processSamples p data s =
     (feed p (debias (rawBitBuffer s @ map rawBit data)) s)
       \<lparr> rawBitBuffer := leftover (rawBitBuffer s @ map rawBit data) \<rparr>"
  using assms
proof (induction data arbitrary: s)
  case Nil
  then show ?case
    by (cases "rawBitBuffer s") (simp_all add: processSamples_def feed_def)
next
  case (Cons x xs)
  show ?case
  proof (cases "rawBitBuffer s")
    case Nil
    let ?s1 = "s\<lparr> rawBitBuffer := [rawBit x] \<rparr>"
    have "processSamples p (x # xs) s = processSamples p xs ?s1"
      using Nil by (simp add: processSamples_def processSample_empty)
    also have "\<dots> = (feed p (debias (rawBit x # map rawBit xs)) ?s1)
       \<lparr> rawBitBuffer := leftover (rawBit x # map rawBit xs) \<rparr>"
      using Cons.IH [of ?s1] Cons.prems by simp
    finally show ?thesis using Nil by (simp add: feed_raw)
  next
    case (Cons c cs)
    with Cons.prems have raw: "rawBitBuffer s = [c]" by simp
    let ?s1 = "(feed p (debias [c, rawBit x]) s)\<lparr> rawBitBuffer := [] \<rparr>"
    have fin: "length (finalBitBuffer ?s1) < 8"
      using Cons.prems by (simp add: feed_final_bound)
    have "processSamples p (x # xs) s = processSamples p xs ?s1"
      using processSample_pair [OF raw Cons.prems(2)] by (simp add: processSamples_def)
    also have "\<dots> = (feed p (debias (map rawBit xs)) ?s1)
       \<lparr> rawBitBuffer := leftover (map rawBit xs) \<rparr>"
      using Cons.IH [of ?s1] fin by simp
    also have "\<dots> = (feed p (debias [c, rawBit x] @ debias (map rawBit xs)) s)
       \<lparr> rawBitBuffer := leftover (map rawBit xs) \<rparr>"
      by (simp add: feed_raw feed_append)
    finally show ?thesis using raw by simp
  qed
qed









text \<open>
  Claim C1. Started with an empty carry, \<^verbatim>\<open>processSamples\<close> hands to the byte assembler,
  in order, exactly the bits that the extractor of the specification gives on the raw bits
  of the samples: the raw bits are paired in arrival order without overlap, (0,1) gives
  0, (1,0) gives 1, (0,0) and (1,1) give nothing, and the odd bit at the end stays in
  \<^verbatim>\<open>rawBitBuffer\<close>. The test of lines 644-645 pushes 0 for the pair (0,1), 1 for the
  pair (1,0) and nothing for (0,0) and (1,1). On the raw bits 0,1,1,0,1,0,0,1 the
  debiased bits are 0,1,1,0.
\<close>

theorem debias_refinement:
  "(rawBitBuffer s = [] \<and> length (finalBitBuffer s) < 8 \<longrightarrow>
      processSamples p data s =
        (feed p (debias (map rawBit data)) s)\<lparr> rawBitBuffer := leftover (map rawBit data) \<rparr>)
   \<and> vonNeumann 0 1 fin = fin @ [0] \<and> vonNeumann 1 0 fin = fin @ [1]
   \<and> vonNeumann 0 0 fin = fin \<and> vonNeumann 1 1 fin = fin
   \<and> finalBitBuffer (processSamples p [0, 1, 1, 0, 1, 0, 0, 1] initial) = [0, 1, 1, 0]"
proof (intro conjI impI)
  show "vonNeumann 0 1 fin = fin @ [0]" and "vonNeumann 1 0 fin = fin @ [1]"
    and "vonNeumann 0 0 fin = fin" and "vonNeumann 1 1 fin = fin"
    by (simp_all add: vonNeumann_def)
next
  assume "rawBitBuffer s = [] \<and> length (finalBitBuffer s) < 8"
  then show "processSamples p data s =
        (feed p (debias (map rawBit data)) s)\<lparr> rawBitBuffer := leftover (map rawBit data) \<rparr>"
    using processSamples_feed [of s p data] by simp
next
  show "finalBitBuffer (processSamples p [0, 1, 1, 0, 1, 0, 0, 1] initial) = [0, 1, 1, 0]"
    by (simp add: processSamples_def processSample_def initial_def rawBit_def vonNeumann_def
        assembleByte_def)
qed

theorem debias_refinement_witness:
  "rawBitBuffer initial = [] \<and> length (finalBitBuffer initial) < 8 \<and>
   processSamples zeroPlatform [2, 7, 5] initial =
     (feed zeroPlatform (debias (map rawBit [2, 7, 5])) initial)
       \<lparr> rawBitBuffer := leftover (map rawBit [2, 7, 5]) \<rparr> \<and>
   debias (map rawBit [2, 7, 5]) = [0] \<and> leftover (map rawBit [2, 7, 5]) = [1]"
  using debias_refinement [where s = initial and p = zeroPlatform and data = "[2, 7, 5]"]
  by (simp add: initial_def rawBit_def)

lemma bitsToUint8_eight:
  assumes "\<forall>b \<in> set [b0, b1, b2, b3, b4, b5, b6, b7]. b = 0 \<or> b = 1"
  shows "uint (bitsToUint8 [b0, b1, b2, b3, b4, b5, b6, b7]) =
     uint b0 * 128 + uint b1 * 64 + uint b2 * 32 + uint b3 * 16 +
     uint b4 * 8 + uint b5 * 4 + uint b6 * 2 + uint b7"
  using assms by (auto simp: bitsToUint8_def)

lemma processSample_finalBitBuffer:
  "finalBitBuffer (processSample p x s) =
     (case rawBitBuffer s of
        [] \<Rightarrow> finalBitBuffer s
      | c # cs \<Rightarrow> (let fin = vonNeumann c (hd (cs @ [rawBit x])) (finalBitBuffer s)
                  in if length fin = 8 then [] else fin))"
  by (cases "rawBitBuffer s"; cases "tl (rawBitBuffer s)")
     (auto simp: processSample_def assembleByte_finalBitBuffer Let_def split: list.splits)

text \<open>
  Claim C3. Eight bits, each 0 or 1, pack into the byte
  \<open>b0*128 + b1*64 + b2*32 + b3*16 + b4*8 + b5*4 + b6*2 + b7\<close>: the first bit received is
  the most significant. When a pair completes, \<^verbatim>\<open>finalBitBuffer\<close> is cleared exactly if
  the push brought its length to 8, and then the byte of those eight bits is appended to
  \<^verbatim>\<open>collectedNumbers\<close>; otherwise the bits stay. The buffer is shorter than 8 after
  every sample. The bits 1,0,1,1,0,0,1,0 give the byte 178.
\<close>

theorem byte_assembly:
  "((\<forall>b \<in> set [b0, b1, b2, b3, b4, b5, b6, b7]. b = 0 \<or> b = 1) \<longrightarrow>
      uint (bitsToUint8 [b0, b1, b2, b3, b4, b5, b6, b7]) =
        uint b0 * 128 + uint b1 * 64 + uint b2 * 32 + uint b3 * 16 +
        uint b4 * 8 + uint b5 * 4 + uint b6 * 2 + uint b7)
   \<and> (rawBitBuffer s = [c] \<longrightarrow>
        (let fin = vonNeumann c (rawBit x) (finalBitBuffer s)
         in finalBitBuffer (processSample p x s) = (if length fin = 8 then [] else fin)
          \<and> processSample p x s =
               (if length fin = 8
                then hashBatch p (s\<lparr> rawBitBuffer := [],
                                     collectedNumbers := collectedNumbers s @ [bitsToUint8 fin],
                                     finalBitBuffer := [] \<rparr>)
                else s\<lparr> rawBitBuffer := [], finalBitBuffer := fin \<rparr>)))
   \<and> (rawBitBuffer s = [] \<longrightarrow>
        finalBitBuffer (processSample p x s) = finalBitBuffer s
        \<and> collectedNumbers (processSample p x s) = collectedNumbers s)
   \<and> (length (finalBitBuffer s) < 8 \<longrightarrow> length (finalBitBuffer (processSample p x s)) < 8)
   \<and> bitsToUint8 [1, 0, 1, 1, 0, 0, 1, 0] = 178"
proof (intro conjI impI)
  assume "\<forall>b \<in> set [b0, b1, b2, b3, b4, b5, b6, b7]. b = 0 \<or> b = 1"
  then show "uint (bitsToUint8 [b0, b1, b2, b3, b4, b5, b6, b7]) =
        uint b0 * 128 + uint b1 * 64 + uint b2 * 32 + uint b3 * 16 +
        uint b4 * 8 + uint b5 * 4 + uint b6 * 2 + uint b7"
    by (rule bitsToUint8_eight)
next
  assume raw: "rawBitBuffer s = [c]"
  show "let fin = vonNeumann c (rawBit x) (finalBitBuffer s)
         in finalBitBuffer (processSample p x s) = (if length fin = 8 then [] else fin)
          \<and> processSample p x s =
               (if length fin = 8
                then hashBatch p (s\<lparr> rawBitBuffer := [],
                                     collectedNumbers := collectedNumbers s @ [bitsToUint8 fin],
                                     finalBitBuffer := [] \<rparr>)
                else s\<lparr> rawBitBuffer := [], finalBitBuffer := fin \<rparr>)"
    using raw by (simp add: processSample_def assembleByte_def Let_def)
next
  assume "rawBitBuffer s = []"
  then show "finalBitBuffer (processSample p x s) = finalBitBuffer s"
    and "collectedNumbers (processSample p x s) = collectedNumbers s"
    by (simp_all add: processSample_def)
next
  assume "length (finalBitBuffer s) < 8"
  then show "length (finalBitBuffer (processSample p x s)) < 8"
    by (auto simp: processSample_finalBitBuffer vonNeumann_def Let_def split: list.splits)
next
  show "bitsToUint8 [1, 0, 1, 1, 0, 0, 1, 0] = 178"
    by (simp add: bitsToUint8_def)
qed

theorem byte_assembly_witness:
  "uint (bitsToUint8 [1, 0, 1, 1, 0, 0, 1, 0]) = 1 * 128 + 0 * 64 + 1 * 32 + 1 * 16 + 0 * 8 + 0 * 4 + 1 * 2 + 0 \<and>
   rawBitBuffer sevenBits = [1] \<and> length (finalBitBuffer sevenBits) < 8 \<and>
   vonNeumann 1 (rawBit 0) (finalBitBuffer sevenBits) = [1, 0, 1, 1, 0, 0, 1, 1] \<and>
   finalBitBuffer (processSample zeroPlatform 0 sevenBits) = [] \<and>
   collectedNumbers (processSample zeroPlatform 0 sevenBits) = [179] \<and>
   rawBitBuffer initial = [] \<and>
   finalBitBuffer (processSample zeroPlatform 5 initial) = [] \<and>
   collectedNumbers (processSample zeroPlatform 5 initial) = []"
  using byte_assembly [of 1 0 1 1 0 0 1 0 sevenBits 1 0 zeroPlatform]
    byte_assembly [of 1 0 1 1 0 0 1 0 initial 1 5 zeroPlatform]
  by (simp add: sevenBits_def initial_def rawBit_def vonNeumann_def hashBatch_def bitsToUint8_def)




lemma hashBatch_uintArray:
  "uintArray (hashBatch p s) =
     (if length (collectedNumbers s) \<ge> 1000
      then uintArray s @ sha256String p (fromCharCode (take 1000 (collectedNumbers s)))
      else uintArray s)"
  by (simp add: hashBatch_def Let_def)

lemma assembleByte_uintArray:
  "uintArray (assembleByte p s) = uintArray s \<or>
   (\<exists>str. uintArray (assembleByte p s) = uintArray s @ sha256String p str)"
  by (auto simp: assembleByte_def hashBatch_uintArray Let_def)

lemma processSample_uintArray:
  "uintArray (processSample p x s) = uintArray s \<or>
   (\<exists>str. uintArray (processSample p x s) = uintArray s @ sha256String p str)"
proof (cases "rawBitBuffer s @ [rawBit x]")
  case Nil
  then show ?thesis by simp
next
  case (Cons b1 rest1)
  then show ?thesis
    using assembleByte_uintArray
      [of p "s\<lparr> rawBitBuffer := tl rest1, finalBitBuffer := vonNeumann b1 (hd rest1) (finalBitBuffer s) \<rparr>"]
    by (cases rest1) (simp_all add: processSample_def)
qed

lemma generateFile_uintArray [simp]: "uintArray (generateFile v s) = uintArray s"
  by (simp add: generateFile_def createFileFromData_def Let_def)

lemma exec_uintArray_cases:
  assumes d: "\<forall>m. length (sha256 p m) = 32" and dv: "32 dvd length (uintArray s)"
  shows "32 dvd length (uintArray (exec p op s))"
proof (cases op)
  case (ProcessSamples data)
  have "32 dvd length (uintArray (processSamples p data s))"
    using dv
  proof (induction data arbitrary: s)
    case Nil
    then show ?case by (simp add: processSamples_def)
  next
    case (Cons x xs)
    have "32 dvd length (uintArray (processSample p x s))"
      using processSample_uintArray [of p x s] Cons.prems d
      by (auto simp: sha256String_def)
    from Cons.IH [OF this] show ?case by (simp add: processSamples_def)
  qed
  with ProcessSamples show ?thesis by simp
qed (use dv in \<open>simp_all add: start_def stop_def resetDataBuffer_def\<close>)

lemma reachable_dvd:
  assumes d: "\<forall>m. length (sha256 p m) = 32" and r: "reachable p s"
  shows "32 dvd length (uintArray s)"
  using r
proof (induction rule: reachable.induct)
  case reachable_initial
  show ?case by (simp add: initial_def)
next
  case (reachable_exec s op)
  then show ?case using exec_uintArray_cases [OF d] by blast
qed

text \<open>
  Claim C10. With a digest of 32 bytes, the length of the pool is a multiple of 32 in
  every state that the operations reach from the initial one, one sample at a time
  included. A sample appends nothing or one whole digest of 32 bytes. So the pool holds
  at least 32 bytes exactly when it is not empty: the check for 32 bytes passes from the
  first digest on.
\<close>

theorem pool_length_multiple_of_32:
  "(\<forall>m. length (sha256 p m) = 32) \<and> reachable p s \<longrightarrow>
     32 dvd length (uintArray s)
     \<and> (32 \<le> length (uintArray s) \<longleftrightarrow> uintArray s \<noteq> [])
     \<and> (uintArray (processSample p x s) = uintArray s \<or>
        (\<exists>d. length d = 32 \<and> uintArray (processSample p x s) = uintArray s @ d))"
proof (intro impI)
  assume h: "(\<forall>m. length (sha256 p m) = 32) \<and> reachable p s"
  then have dv: "32 dvd length (uintArray s)" using reachable_dvd by blast
  have a: "32 \<le> length (uintArray s) \<longleftrightarrow> uintArray s \<noteq> []"
  proof
    assume "32 \<le> length (uintArray s)"
    then show "uintArray s \<noteq> []" by auto
  next
    assume "uintArray s \<noteq> []"
    then have "0 < length (uintArray s)" by simp
    with dv show "32 \<le> length (uintArray s)" by (rule dvd_imp_le)
  qed
  have b: "uintArray (processSample p x s) = uintArray s \<or>
        (\<exists>d. length d = 32 \<and> uintArray (processSample p x s) = uintArray s @ d)"
    using processSample_uintArray [of p x s] h by (auto simp: sha256String_def)
  from dv a b show "32 dvd length (uintArray s)
     \<and> (32 \<le> length (uintArray s) \<longleftrightarrow> uintArray s \<noteq> [])
     \<and> (uintArray (processSample p x s) = uintArray s \<or>
        (\<exists>d. length d = 32 \<and> uintArray (processSample p x s) = uintArray s @ d))"
    by blast
qed

lemma debias_zeroOnes: "debias (map rawBit (zeroOnes n)) = replicate n 0"
  by (induction n) (simp_all add: zeroOnes_def rawBit_def)

lemma leftover_zeroOnes: "leftover (map rawBit (zeroOnes n)) = []"
  by (induction n) (simp_all add: zeroOnes_def rawBit_def)

lemma feed_zero_byte:
  assumes "finalBitBuffer s = []"
  shows "feed p (replicate 8 0) s =
     hashBatch p (s\<lparr> collectedNumbers := collectedNumbers s @ [0], finalBitBuffer := [] \<rparr>)"
proof -
  have r: "replicate 8 (0 :: 32 word) = [0, 0, 0, 0, 0, 0, 0, 0]"
    by (simp add: numeral_eq_Suc)
  show ?thesis
    using assms unfolding r by (simp add: feed_def deliver_def assembleByte_def bitsToUint8_def)
qed

lemma feed_zero_bytes:
  assumes "finalBitBuffer s = []" and "length (collectedNumbers s) + n < 1000"
  shows "feed p (replicate (8 * n) 0) s =
     s\<lparr> collectedNumbers := collectedNumbers s @ replicate n 0 \<rparr>"
  using assms
proof (induction n arbitrary: s)
  case 0
  then show ?case by (simp add: feed_def)
next
  case (Suc n)
  let ?s1 = "s\<lparr> collectedNumbers := collectedNumbers s @ [0], finalBitBuffer := [] \<rparr>"
  have split: "replicate (8 * Suc n) (0 :: 32 word) = replicate 8 0 @ replicate (8 * n) 0"
    by (simp add: replicate_add [symmetric])
  have "feed p (replicate 8 0) s = hashBatch p ?s1"
    using Suc.prems(1) by (rule feed_zero_byte)
  also have "\<dots> = ?s1"
    using Suc.prems(2) by (simp add: hashBatch_def)
  finally have one: "feed p (replicate 8 0) s = ?s1" .
  have "feed p (replicate (8 * Suc n) 0) s = feed p (replicate (8 * n) 0) ?s1"
    unfolding split feed_append one ..
  also have "\<dots> = ?s1\<lparr> collectedNumbers := collectedNumbers ?s1 @ replicate n 0 \<rparr>"
    using Suc.prems by (intro Suc.IH) simp_all
  also have "\<dots> = s\<lparr> collectedNumbers := collectedNumbers s @ replicate (Suc n) 0 \<rparr>"
    using Suc.prems(1) by (simp add: replicate_app_Cons_same)
  finally show ?case .
qed

lemma first_digest:
  "processSamples zeroPlatform (zeroOnes 8000) initial = initial\<lparr> uintArray := replicate 32 0 \<rparr>"
proof -
  have "processSamples zeroPlatform (zeroOnes 8000) initial
      = feed zeroPlatform (replicate 8000 0) initial"
    using processSamples_feed [of initial zeroPlatform "zeroOnes 8000"]
      feed_raw [where p = zeroPlatform and bits = "replicate 8000 0" and s = initial and r = "[]", symmetric]
    by (simp add: initial_def debias_zeroOnes leftover_zeroOnes)
  also have "replicate 8000 (0 :: 32 word) = replicate (8 * 999) 0 @ replicate 8 0"
    by (simp add: replicate_add [symmetric])
  also have "feed zeroPlatform (replicate (8 * 999) 0 @ replicate 8 0) initial
      = feed zeroPlatform (replicate 8 0) (feed zeroPlatform (replicate (8 * 999) 0) initial)"
    by (rule feed_append)
  also have "feed zeroPlatform (replicate (8 * 999) 0) initial
      = initial\<lparr> collectedNumbers := replicate 999 0 \<rparr>"
    using feed_zero_bytes [of initial 999 zeroPlatform] by (simp add: initial_def)
  also have "feed zeroPlatform (replicate 8 0) (initial\<lparr> collectedNumbers := replicate 999 0 \<rparr>)
      = hashBatch zeroPlatform (initial\<lparr> collectedNumbers := replicate 999 0 @ [0], finalBitBuffer := [] \<rparr>)"
    using feed_zero_byte [of "initial\<lparr> collectedNumbers := replicate 999 0 \<rparr>" zeroPlatform]
    by (simp add: initial_def)
  also have "\<dots> = initial\<lparr> uintArray := replicate 32 0 \<rparr>"
    by (simp add: hashBatch_def initial_def zeroPlatform_def sha256String_def)
  finally show ?thesis .
qed

theorem pool_length_multiple_of_32_witness:
  "(\<forall>m. length (sha256 zeroPlatform m) = 32) \<and>
   reachable zeroPlatform (processSamples zeroPlatform (zeroOnes 8000) initial) \<and>
   uintArray (processSamples zeroPlatform (zeroOnes 8000) initial) = replicate 32 0 \<and>
   32 dvd length (uintArray (processSamples zeroPlatform (zeroOnes 8000) initial)) \<and>
   32 \<le> length (uintArray (processSamples zeroPlatform (zeroOnes 8000) initial))"
proof -
  have d: "\<forall>m. length (sha256 zeroPlatform m) = 32"
    by (simp add: zeroPlatform_def)
  have r: "reachable zeroPlatform (processSamples zeroPlatform (zeroOnes 8000) initial)"
    using reachable_exec [OF reachable_initial, of zeroPlatform "ProcessSamples (zeroOnes 8000)"]
    by simp
  show ?thesis
    using pool_length_multiple_of_32
      [of zeroPlatform "processSamples zeroPlatform (zeroOnes 8000) initial" 0] d r
    by (simp add: first_digest)
qed

section \<open>The suspension at the digest: proofs\<close>

































section \<open>The pool and its consumers in unnamed/part_000: proofs\<close>














section \<open>The bit matrix of script.js: proofs\<close>

lemma calculateOptimalChunkSize_cases:
  "calculateOptimalChunkSize v \<in> {1000, 2000, 3000}"
  by (simp add: calculateOptimalChunkSize_def Let_def)

lemma calculateOptimalChunkSize_ge: "1000 \<le> calculateOptimalChunkSize v"
  using calculateOptimalChunkSize_cases [of v] by auto

lemma updatePixel_fields [simp]:
  "lastBitCount (updatePixel bits i v) = lastBitCount v"
  "surface (updatePixel bits i v) = surface v"
  "isMatrixComplete (updatePixel bits i v) = isMatrixComplete v"
  "updateThrottle (updatePixel bits i v) = updateThrottle v"
  "updateInterval (updatePixel bits i v) = updateInterval v"
  "adaptiveInterval (updatePixel bits i v) = adaptiveInterval v"
  "averageUpdateTime (updatePixel bits i v) = averageUpdateTime v"
  "updateCount (updatePixel bits i v) = updateCount v"
  by (simp_all add: updatePixel_def Let_def)

lemma updatePixelsBatch_fields [simp]:
  "lastBitCount (updatePixelsBatch bits a b v) = lastBitCount v"
  "surface (updatePixelsBatch bits a b v) = surface v"
  "isMatrixComplete (updatePixelsBatch bits a b v) = isMatrixComplete v"
  "updateThrottle (updatePixelsBatch bits a b v) = updateThrottle v"
  "updateInterval (updatePixelsBatch bits a b v) = updateInterval v"
  "adaptiveInterval (updatePixelsBatch bits a b v) = adaptiveInterval v"
  "averageUpdateTime (updatePixelsBatch bits a b v) = averageUpdateTime v"
  "updateCount (updatePixelsBatch bits a b v) = updateCount v"
proof -
  have "\<And>xs. lastBitCount (fold (updatePixel bits) xs v) = lastBitCount v
     \<and> surface (fold (updatePixel bits) xs v) = surface v
     \<and> isMatrixComplete (fold (updatePixel bits) xs v) = isMatrixComplete v
     \<and> updateThrottle (fold (updatePixel bits) xs v) = updateThrottle v
     \<and> updateInterval (fold (updatePixel bits) xs v) = updateInterval v
     \<and> adaptiveInterval (fold (updatePixel bits) xs v) = adaptiveInterval v
     \<and> averageUpdateTime (fold (updatePixel bits) xs v) = averageUpdateTime v
     \<and> updateCount (fold (updatePixel bits) xs v) = updateCount v"
    subgoal for xs by (induction xs arbitrary: v) simp_all
    done
  then show
    "lastBitCount (updatePixelsBatch bits a b v) = lastBitCount v"
    "surface (updatePixelsBatch bits a b v) = surface v"
    "isMatrixComplete (updatePixelsBatch bits a b v) = isMatrixComplete v"
    "updateThrottle (updatePixelsBatch bits a b v) = updateThrottle v"
    "updateInterval (updatePixelsBatch bits a b v) = updateInterval v"
    "adaptiveInterval (updatePixelsBatch bits a b v) = adaptiveInterval v"
    "averageUpdateTime (updatePixelsBatch bits a b v) = averageUpdateTime v"
    "updateCount (updatePixelsBatch bits a b v) = updateCount v"
    by (simp_all add: updatePixelsBatch_def)
qed

lemma updatePerformanceMetrics_fields [simp]:
  "lastBitCount (updatePerformanceMetrics a b v) = lastBitCount v"
  "surface (updatePerformanceMetrics a b v) = surface v"
  "isMatrixComplete (updatePerformanceMetrics a b v) = isMatrixComplete v"
  "updateThrottle (updatePerformanceMetrics a b v) = updateThrottle v"
  "adaptiveInterval (updatePerformanceMetrics a b v) = adaptiveInterval v"
  by (simp_all add: updatePerformanceMetrics_def Let_def)

lemma updatePerformanceMetrics_interval:
  "updateInterval v \<le> 200 \<Longrightarrow> updateInterval (updatePerformanceMetrics a b v) \<le> 200"
  by (simp add: updatePerformanceMetrics_def Let_def)

lemma length_uint8ArrayToBits [simp]: "length (uint8ArrayToBits arr) = 8 * length arr"
  by (induction arr) (simp_all add: uint8ArrayToBits_def)

lemma calculateOptimalChunkSize_upd [simp]:
  "calculateOptimalChunkSize (v\<lparr> updateThrottle := x \<rparr>) = calculateOptimalChunkSize v"
  "calculateOptimalChunkSize (v\<lparr> imageData := y \<rparr>) = calculateOptimalChunkSize v"
  by (simp_all add: calculateOptimalChunkSize_def)

lemma draw_no_surface: "\<not> surface v \<Longrightarrow> drawBitMatrix arr now t0 t1 v = v"
  by (simp add: drawBitMatrix_def)

lemma draw_throttled: "throttled now v \<Longrightarrow> drawBitMatrix arr now t0 t1 v = v"
  by (simp add: drawBitMatrix_def throttled_def)

lemma draw_refresh:
  assumes "surface v" "\<not> throttled now v"
    and "matrixWidth * matrixHeight \<le> lastBitCount v"
    and "matrixWidth * matrixHeight < 8 * length arr"
  shows "lastBitCount (drawBitMatrix arr now t0 t1 v) = 0"
    and "isMatrixComplete (drawBitMatrix arr now t0 t1 v) = False"
    and "surface (drawBitMatrix arr now t0 t1 v)"
    and "updateThrottle (drawBitMatrix arr now t0 t1 v) = now"
    and "updateInterval (drawBitMatrix arr now t0 t1 v) = updateInterval v"
  using assms by (auto simp: drawBitMatrix_def throttled_def Let_def performFullRefresh_def)

lemma draw_idle:
  assumes "surface v" "\<not> throttled now v"
    and "\<not> (matrixWidth * matrixHeight \<le> lastBitCount v \<and> matrixWidth * matrixHeight < 8 * length arr)"
    and "8 * length arr \<le> lastBitCount v \<or> isMatrixComplete v"
  shows "lastBitCount (drawBitMatrix arr now t0 t1 v) = lastBitCount v"
    and "isMatrixComplete (drawBitMatrix arr now t0 t1 v) = isMatrixComplete v"
    and "surface (drawBitMatrix arr now t0 t1 v)"
    and "updateThrottle (drawBitMatrix arr now t0 t1 v) = now"
    and "updateInterval (drawBitMatrix arr now t0 t1 v) = updateInterval v"
  using assms by (auto simp: drawBitMatrix_def throttled_def Let_def)

lemma draw_advance:
  assumes "surface v" "\<not> throttled now v"
    and "\<not> (matrixWidth * matrixHeight \<le> lastBitCount v \<and> matrixWidth * matrixHeight < 8 * length arr)"
    and "lastBitCount v < 8 * length arr" and "\<not> isMatrixComplete v"
  shows "lastBitCount (drawBitMatrix arr now t0 t1 v) =
      min (min (lastBitCount v + min (8 * length arr - lastBitCount v) (calculateOptimalChunkSize v))
               (matrixWidth * matrixHeight))
          (8 * length arr)"
    and "isMatrixComplete (drawBitMatrix arr now t0 t1 v) =
      (matrixWidth * matrixHeight \<le> lastBitCount (drawBitMatrix arr now t0 t1 v))"
    and "surface (drawBitMatrix arr now t0 t1 v)"
    and "updateThrottle (drawBitMatrix arr now t0 t1 v) = now"
    and "updateInterval v \<le> 200 \<Longrightarrow> updateInterval (drawBitMatrix arr now t0 t1 v) \<le> 200"
proof -
  let ?T = "8 * length arr"
  let ?v2 = "(if \<not> imageData (v\<lparr> updateThrottle := now \<rparr>)
              then v\<lparr> updateThrottle := now, imageData := True \<rparr>
              else v\<lparr> updateThrottle := now \<rparr>)"
  let ?e = "min (lastBitCount v + min (?T - lastBitCount v) (calculateOptimalChunkSize v))
               (matrixWidth * matrixHeight)"
  let ?v4 = "(updatePixelsBatch (uint8ArrayToBits arr) (lastBitCount v) ?e ?v2)
               \<lparr> lastBitCount := min ?e ?T \<rparr>"
  let ?v5 = "(if matrixWidth * matrixHeight \<le> lastBitCount ?v4
              then ?v4\<lparr> isMatrixComplete := True \<rparr> else ?v4)"
  have nt: "\<not> (adaptiveInterval v \<and> now - updateThrottle v < updateInterval v)"
    using assms(2) by (simp add: throttled_def)
  have nr: "\<not> (matrixWidth * matrixHeight \<le> lastBitCount ?v2
      \<and> matrixWidth * matrixHeight < length (uint8ArrayToBits arr))"
    using assms(3) by simp
  have ni: "\<not> (length (uint8ArrayToBits arr) \<le> lastBitCount ?v2 \<or> isMatrixComplete ?v2)"
    using assms(4,5) by simp
  have eq: "drawBitMatrix arr now t0 t1 v = updatePerformanceMetrics t0 t1 ?v5"
    unfolding drawBitMatrix_def Let_def
    apply (simp only: assms(1) not_True_eq_False if_False nt)
    apply (simp only: nr ni if_False)
    apply simp
    done
  show "lastBitCount (drawBitMatrix arr now t0 t1 v) = min ?e ?T"
    unfolding eq by simp
  show "isMatrixComplete (drawBitMatrix arr now t0 t1 v) =
      (matrixWidth * matrixHeight \<le> lastBitCount (drawBitMatrix arr now t0 t1 v))"
    unfolding eq using assms(5) by simp
  show "surface (drawBitMatrix arr now t0 t1 v)"
    unfolding eq using assms(1) by simp
  show "updateThrottle (drawBitMatrix arr now t0 t1 v) = now"
    unfolding eq by simp
  show "updateInterval (drawBitMatrix arr now t0 t1 v) \<le> 200" if "updateInterval v \<le> 200"
    unfolding eq using that by (intro updatePerformanceMetrics_interval) simp
qed

lemma drawBitMatrix_capacity:
  assumes "lastBitCount v \<le> matrixWidth * matrixHeight"
  shows "lastBitCount (drawBitMatrix arr now t0 t1 v) \<le> matrixWidth * matrixHeight"
proof -
  consider (off) "\<not> surface v" | (thr) "throttled now v"
    | (refresh) "surface v" "\<not> throttled now v"
        "matrixWidth * matrixHeight \<le> lastBitCount v \<and> matrixWidth * matrixHeight < 8 * length arr"
    | (idle) "surface v" "\<not> throttled now v"
        "\<not> (matrixWidth * matrixHeight \<le> lastBitCount v \<and> matrixWidth * matrixHeight < 8 * length arr)"
        "8 * length arr \<le> lastBitCount v \<or> isMatrixComplete v"
    | (advance) "surface v" "\<not> throttled now v"
        "\<not> (matrixWidth * matrixHeight \<le> lastBitCount v \<and> matrixWidth * matrixHeight < 8 * length arr)"
        "lastBitCount v < 8 * length arr" "\<not> isMatrixComplete v"
    by fastforce
  then show ?thesis
  proof cases
    case off
    then show ?thesis using assms by (simp add: draw_no_surface)
  next
    case thr
    then show ?thesis using assms by (simp add: draw_throttled)
  next
    case refresh
    then show ?thesis by (simp add: draw_refresh(1))
  next
    case idle
    then show ?thesis using assms by (simp add: draw_idle(1))
  next
    case advance
    then show ?thesis by (simp add: draw_advance(1))
  qed
qed

lemma drawRun_capacity:
  "lastBitCount v \<le> matrixWidth * matrixHeight \<Longrightarrow>
   lastBitCount (drawRun arr ticks v) \<le> matrixWidth * matrixHeight"
proof (induction ticks arbitrary: v)
  case Nil
  then show ?case by (simp add: drawRun_def)
next
  case (Cons t ts)
  obtain now t0 t1 where t: "t = (now, t0, t1)" by (cases t)
  have "lastBitCount (drawTick arr t v) \<le> matrixWidth * matrixHeight"
    unfolding t drawTick_def using Cons.prems by (simp add: drawBitMatrix_capacity)
  from Cons.IH [OF this] show ?case by (simp add: drawRun_def)
qed

text \<open>
  Claim C6, as stated, fails on script.js. The cursor of this renderer never passes the
  capacity of the matrix, 200 * 100 = 20000 bits: at capacity it stops, and the next call
  that passes the throttle is a full refresh, which puts it back to 0. On a pool of 2528
  bytes, 79 digests and 20224 bits, no run of calls from the constructor state, whatever
  the clocks read, leaves \<^verbatim>\<open>lastBitCount\<close> equal to the bit count of the pool.
\<close>

theorem cursor_stuck_below_pool:
  "\<not> (\<exists>ticks. lastBitCount (drawRun (replicate 2528 0) ticks initial_viz)
                 = 8 * length (replicate 2528 (0 :: 8 word)))"
proof
  assume "\<exists>ticks. lastBitCount (drawRun (replicate 2528 0) ticks initial_viz)
                 = 8 * length (replicate 2528 (0 :: 8 word))"
  then obtain ticks where
    eq: "lastBitCount (drawRun (replicate 2528 0) ticks initial_viz) = 8 * length (replicate 2528 (0 :: 8 word))"
    by blast
  have "lastBitCount (drawRun (replicate 2528 0) ticks initial_viz) \<le> matrixWidth * matrixHeight"
    by (rule drawRun_capacity) (simp add: initial_viz_def)
  with eq show False by (simp add: matrixWidth_def matrixHeight_def)
qed

lemma draw_progress:
  assumes inv: "tracking (8 * length arr) v"
    and cap: "8 * length arr \<le> matrixWidth * matrixHeight"
    and sp: "updateThrottle v + 200 \<le> now"
  shows "tracking (8 * length arr) (drawBitMatrix arr now t0 t1 v)"
    and "updateThrottle (drawBitMatrix arr now t0 t1 v) = now"
    and "min (8 * length arr) (lastBitCount v + 1000) \<le> lastBitCount (drawBitMatrix arr now t0 t1 v)"
proof -
  let ?T = "8 * length arr"
  let ?v' = "drawBitMatrix arr now t0 t1 v"
  from inv have s: "surface v" and i: "updateInterval v \<le> 200"
    and c: "isMatrixComplete v \<longrightarrow> matrixWidth * matrixHeight \<le> lastBitCount v"
    and l: "lastBitCount v \<le> ?T"
    by (simp_all add: tracking_def)
  have nt: "\<not> throttled now v"
    using sp i by (simp add: throttled_def)
  have nr: "\<not> (matrixWidth * matrixHeight \<le> lastBitCount v \<and> matrixWidth * matrixHeight < ?T)"
    using cap by simp
  have "tracking ?T ?v' \<and> updateThrottle ?v' = now \<and> min ?T (lastBitCount v + 1000) \<le> lastBitCount ?v'"
  proof (cases "?T \<le> lastBitCount v \<or> isMatrixComplete v")
    case True
    then have full: "lastBitCount v = ?T" using c l cap by auto
    show ?thesis
      using draw_idle [OF s nt nr True, of t0 t1] s i c l full
      by (simp add: tracking_def)
  next
    case False
    then have lt: "lastBitCount v < ?T" and nc: "\<not> isMatrixComplete v" by simp_all
    note adv = draw_advance [OF s nt nr lt nc, of t0 t1]
    have ch: "1000 \<le> calculateOptimalChunkSize v" by (rule calculateOptimalChunkSize_ge)
    have val: "lastBitCount ?v' = lastBitCount v + min (?T - lastBitCount v) (calculateOptimalChunkSize v)"
      using adv(1) cap lt by simp
    have "tracking ?T ?v'"
      unfolding tracking_def using adv(2,3) adv(5) [OF i] val lt by simp
    moreover have "min ?T (lastBitCount v + 1000) \<le> lastBitCount ?v'"
      using val ch lt by simp
    ultimately show ?thesis using adv(4) by simp
  qed
  then show "tracking ?T ?v'" and "updateThrottle ?v' = now"
    and "min ?T (lastBitCount v + 1000) \<le> lastBitCount ?v'"
    by simp_all
qed

lemma drawRun_progress:
  assumes "tracking (8 * length arr) v"
    and "8 * length arr \<le> matrixWidth * matrixHeight"
    and "spaced (updateThrottle v) ticks"
  shows "tracking (8 * length arr) (drawRun arr ticks v) \<and>
     min (8 * length arr) (lastBitCount v + 1000 * length ticks) \<le> lastBitCount (drawRun arr ticks v)"
  using assms
proof (induction ticks arbitrary: v)
  case Nil
  then show ?case by (simp add: drawRun_def tracking_def)
next
  case (Cons t ts)
  obtain now t0 t1 where t: "t = (now, t0, t1)" by (cases t)
  let ?v1 = "drawBitMatrix arr now t0 t1 v"
  from Cons.prems(3) have sp: "updateThrottle v + 200 \<le> now" and rest: "spaced now ts"
    by (simp_all add: t)
  note step = draw_progress [OF Cons.prems(1,2) sp, of t0 t1]
  have "tracking (8 * length arr) (drawRun arr ts ?v1) \<and>
     min (8 * length arr) (lastBitCount ?v1 + 1000 * length ts) \<le> lastBitCount (drawRun arr ts ?v1)"
    using Cons.IH [OF step(1) Cons.prems(2)] rest step(2) by simp
  moreover have "drawRun arr (t # ts) v = drawRun arr ts ?v1"
    by (simp add: drawRun_def drawTick_def t)
  ultimately show ?case using step(3) by auto
qed

text \<open>
  Claim C6, amended. When the pool holds no more bits than the matrix has cells, the
  cursor does catch up: from a state of the renderer that tracks the pool, a run of
  calls that pass the throttle (each at least 200 ms after the one before), long enough
  for chunks of 1000 bits to cover what is left, ends with \<^verbatim>\<open>lastBitCount\<close> equal to
  the bit count of the pool.
\<close>

theorem cursor_catches_up_within_capacity:
  "surface v \<and> updateInterval v \<le> 200 \<and>
   (isMatrixComplete v \<longrightarrow> matrixWidth * matrixHeight \<le> lastBitCount v) \<and>
   lastBitCount v \<le> 8 * length arr \<and>
   8 * length arr \<le> matrixWidth * matrixHeight \<and>
   spaced (updateThrottle v) ticks \<and>
   8 * length arr \<le> lastBitCount v + 1000 * length ticks
   \<longrightarrow> lastBitCount (drawRun arr ticks v) = 8 * length arr"
proof
  assume h: "surface v \<and> updateInterval v \<le> 200 \<and>
   (isMatrixComplete v \<longrightarrow> matrixWidth * matrixHeight \<le> lastBitCount v) \<and>
   lastBitCount v \<le> 8 * length arr \<and>
   8 * length arr \<le> matrixWidth * matrixHeight \<and>
   spaced (updateThrottle v) ticks \<and>
   8 * length arr \<le> lastBitCount v + 1000 * length ticks"
  then have tr: "tracking (8 * length arr) v" by (simp add: tracking_def)
  from h have cap: "8 * length arr \<le> matrixWidth * matrixHeight"
    and sp: "spaced (updateThrottle v) ticks"
    and en: "8 * length arr \<le> lastBitCount v + 1000 * length ticks"
    by simp_all
  from drawRun_progress [OF tr cap sp] en
  show "lastBitCount (drawRun arr ticks v) = 8 * length arr"
    by (simp add: tracking_def)
qed

theorem cursor_catches_up_within_capacity_witness:
  "surface initial_viz \<and> updateInterval initial_viz \<le> 200 \<and>
   \<not> isMatrixComplete initial_viz \<and>
   lastBitCount initial_viz \<le> 8 * length (replicate 320 (165 :: 8 word)) \<and>
   8 * length (replicate 320 (165 :: 8 word)) \<le> matrixWidth * matrixHeight \<and>
   spaced (updateThrottle initial_viz) [(1000, 0, 1), (1200, 3, 5), (1400, 8, 9)] \<and>
   8 * length (replicate 320 (165 :: 8 word))
     \<le> lastBitCount initial_viz + 1000 * length [(1000, 0, 1), (1200, 3, 5), (1400, 8 :: real, 9 :: real)] \<and>
   lastBitCount (drawRun (replicate 320 165) [(1000, 0, 1), (1200, 3, 5), (1400, 8, 9)] initial_viz) = 2560"
  using cursor_catches_up_within_capacity
    [of initial_viz "replicate 320 165" "[(1000, 0, 1), (1200, 3, 5), (1400, 8, 9)]"]
  by (simp add: initial_viz_def matrixWidth_def matrixHeight_def)

section \<open>The waterfall of unnamed/part_000: proofs\<close>

lemma commitRow_scroll:
  assumes "length (offscreen w) = matrixHeight_wf w" and "0 < matrixHeight_wf w"
  shows "offscreen (commitRow bitsRow w) =
     (if newestOnTop w then rowPixels w bitsRow # butlast (offscreen w)
      else tl (offscreen w) @ [rowPixels w bitsRow])"
proof (cases "newestOnTop w")
  case True
  have "map (\<lambda>y. if y = 0 then rowPixels w bitsRow else offscreen w ! (y - 1)) [0..<matrixHeight_wf w]
      = rowPixels w bitsRow # butlast (offscreen w)"
    using assms by (auto simp: list_eq_iff_nth_eq nth_Cons' nth_butlast)
  with True show ?thesis by (simp add: commitRow_def Let_def)
next
  case False
  have "map (\<lambda>y. if y = matrixHeight_wf w - 1 then rowPixels w bitsRow else offscreen w ! (y + 1))
          [0..<matrixHeight_wf w]
      = tl (offscreen w) @ [rowPixels w bitsRow]"
    using assms by (auto simp: list_eq_iff_nth_eq nth_append nth_tl)
  with False show ?thesis by (simp add: commitRow_def Let_def)
qed

lemma commitRow_fields [simp]:
  "matrixWidth_wf (commitRow r w) = matrixWidth_wf w"
  "matrixHeight_wf (commitRow r w) = matrixHeight_wf w"
  "newestOnTop (commitRow r w) = newestOnTop w"
  "colorZero (commitRow r w) = colorZero w"
  "colorOne (commitRow r w) = colorOne w"
  "length (offscreen (commitRow r w)) = matrixHeight_wf w"
  by (simp_all add: commitRow_def Let_def)

lemma rowPixels_commitRow [simp]: "rowPixels (commitRow r w) bits = rowPixels w bits"
  by (simp add: rowPixels_def bitPixel_def)

lemma smallWaterfall_eq:
  "smallWaterfall = initial_waterfall\<lparr> matrixWidth_wf := 4, matrixHeight_wf := 2,
     offscreen := [[whitePixel, whitePixel, whitePixel, whitePixel],
                   [whitePixel, whitePixel, whitePixel, whitePixel]] \<rparr>"
  by (simp add: smallWaterfall_def setMatrixSize_def resetBitMatrix_wf_def clearOffscreenToWhite_def
      initial_waterfall_def numeral_eq_Suc)

lemma drawBitWaterfall_small:
  "drawBitWaterfall [165] smallWaterfall =
     smallWaterfall\<lparr> offscreen :=
        [[(255, 255, 255, 255), (0, 0, 0, 255), (255, 255, 255, 255), (0, 0, 0, 255)],
         [(0, 0, 0, 255), (255, 255, 255, 255), (0, 0, 0, 255), (255, 255, 255, 255)]],
        lastBitCount_wf := 8 \<rparr>"
  unfolding smallWaterfall_eq
  by (simp add: drawBitWaterfall_def initial_waterfall_def accumulateBit_def pullBit_def
      commitRow_def rowPixels_def bitPixel_def Let_def upt_rec [of _ "numeral _"])

text \<open>
  Claim C7. The mode "newest at top" is \<^verbatim>\<open>newestOnTop\<close> of the waterfall renderer. With
  width 4 and height 2, committing the row 1,0,1,0 and then the row 0,1,0,1 leaves the
  row 0,1,0,1 on top and the row 1,0,1,0 below it, each bit in its colour. In general a
  committed row moves every row one place away from the insertion edge, drops the row at
  the other edge and takes the place at the insertion edge. The same grid results when
  the renderer itself draws the byte 10100101 into a fresh 4 by 2 waterfall.
\<close>

theorem waterfall_newest_on_top:
  "(matrixWidth_wf w = 4 \<and> matrixHeight_wf w = 2 \<and> newestOnTop w \<and> length (offscreen w) = 2 \<longrightarrow>
      offscreen (commitRow [0, 1, 0, 1] (commitRow [1, 0, 1, 0] w))
        = [map (bitPixel w) [False, True, False, True], map (bitPixel w) [True, False, True, False]])
   \<and> (length (offscreen w) = matrixHeight_wf w \<and> 0 < matrixHeight_wf w \<longrightarrow>
        offscreen (commitRow bitsRow w) =
          (if newestOnTop w then rowPixels w bitsRow # butlast (offscreen w)
           else tl (offscreen w) @ [rowPixels w bitsRow]))
   \<and> offscreen (drawBitWaterfall [165] smallWaterfall)
        = [map (bitPixel smallWaterfall) [False, True, False, True],
           map (bitPixel smallWaterfall) [True, False, True, False]]"
proof (intro conjI impI)
  assume h: "matrixWidth_wf w = 4 \<and> matrixHeight_wf w = 2 \<and> newestOnTop w \<and> length (offscreen w) = 2"
  then obtain r1 r2 where rows: "offscreen w = [r1, r2]"
    by (cases "offscreen w"; cases "tl (offscreen w)") auto
  have px1: "rowPixels w [1, 0, 1, 0] = map (bitPixel w) [True, False, True, False]"
    using h by (simp add: rowPixels_def upt_rec [of _ "numeral _"])
  have px2: "rowPixels w [0, 1, 0, 1] = map (bitPixel w) [False, True, False, True]"
    using h by (simp add: rowPixels_def upt_rec [of _ "numeral _"])
  have first: "offscreen (commitRow [1, 0, 1, 0] w) = [rowPixels w [1, 0, 1, 0], r1]"
    using commitRow_scroll [of w "[1, 0, 1, 0]"] h rows by simp
  have "offscreen (commitRow [0, 1, 0, 1] (commitRow [1, 0, 1, 0] w))
      = [rowPixels w [0, 1, 0, 1], rowPixels w [1, 0, 1, 0]]"
    using commitRow_scroll [of "commitRow [1, 0, 1, 0] w" "[0, 1, 0, 1]"] h first by simp
  then show "offscreen (commitRow [0, 1, 0, 1] (commitRow [1, 0, 1, 0] w))
        = [map (bitPixel w) [False, True, False, True], map (bitPixel w) [True, False, True, False]]"
    by (simp only: px1 px2)
next
  assume "length (offscreen w) = matrixHeight_wf w \<and> 0 < matrixHeight_wf w"
  then show "offscreen (commitRow bitsRow w) =
          (if newestOnTop w then rowPixels w bitsRow # butlast (offscreen w)
           else tl (offscreen w) @ [rowPixels w bitsRow])"
    using commitRow_scroll [of w bitsRow] by simp
next
  show "offscreen (drawBitWaterfall [165] smallWaterfall)
        = [map (bitPixel smallWaterfall) [False, True, False, True],
           map (bitPixel smallWaterfall) [True, False, True, False]]"
    unfolding drawBitWaterfall_small
    by (simp add: smallWaterfall_eq bitPixel_def initial_waterfall_def)
qed

theorem waterfall_newest_on_top_witness:
  "matrixWidth_wf smallWaterfall = 4 \<and> matrixHeight_wf smallWaterfall = 2 \<and>
   newestOnTop smallWaterfall \<and> length (offscreen smallWaterfall) = 2 \<and>
   length (offscreen smallWaterfall) = matrixHeight_wf smallWaterfall \<and>
   0 < matrixHeight_wf smallWaterfall \<and>
   offscreen (commitRow [0, 1, 0, 1] (commitRow [1, 0, 1, 0] smallWaterfall))
     = [[(255, 255, 255, 255), (0, 0, 0, 255), (255, 255, 255, 255), (0, 0, 0, 255)],
        [(0, 0, 0, 255), (255, 255, 255, 255), (0, 0, 0, 255), (255, 255, 255, 255)]] \<and>
   offscreen (commitRow [1, 1, 1, 1] (smallWaterfall\<lparr> newestOnTop := False \<rparr>))
     = [[(255, 255, 255, 255), (255, 255, 255, 255), (255, 255, 255, 255), (255, 255, 255, 255)],
        [(0, 0, 0, 255), (0, 0, 0, 255), (0, 0, 0, 255), (0, 0, 0, 255)]]"
  using waterfall_newest_on_top [of smallWaterfall "[1, 1, 1, 1]"]
    waterfall_newest_on_top [of "smallWaterfall\<lparr> newestOnTop := False \<rparr>" "[1, 1, 1, 1]"]
  by (simp add: smallWaterfall_eq initial_waterfall_def bitPixel_def rowPixels_def whitePixel_def
      upt_rec [of _ "numeral _"])

section \<open>The consumers of the pool: proofs\<close>

text \<open>
  The three guards: a password or a list of numbers is refused on a pool of fewer than 32
  bytes, and a file on a pool shorter than the file waits for more data.
\<close>

lemma generatePassword_not_enough:
  "length arr < 32 \<Longrightarrow> generatePassword f arr = PwNotEnoughData"
  by (simp add: generatePassword_def)

lemma generateNumbers_not_enough:
  "length arr < 32 \<Longrightarrow> generateNumbers f arr = NumNotEnoughData"
  by (simp add: generateNumbers_def)

lemma generateFile_not_enough:
  "length (uintArray s) < fileSizeOf v \<Longrightarrow>
   generateFile v s = s\<lparr> requiredDataSize := fileSizeOf v, isGenerating := True \<rparr>"
  by (simp add: generateFile_def)

lemma passwordPiece_undefined:
  assumes "i + length arr < pwLength" and "pwLength < 2 * length arr + i"
  shows "passwordPiece charset arr pwLength i = ''undefined''"
proof -
  let ?x = "int i + int (length arr) - int pwLength"
  have neg: "?x < 0" using assms by linarith
  have small: "\<bar>?x\<bar> < int (length arr)" using assms by linarith
  have pos: "0 < \<bar>?x\<bar>" using neg by linarith
  have "\<bar>?x\<bar> mod \<bar>int (length arr)\<bar> = \<bar>?x\<bar>"
    using small by simp
  then have "jsRem ?x (int (length arr)) = - \<bar>?x\<bar>"
    using neg by (simp add: jsRem_def sgn_if)
  then have "jsRem ?x (int (length arr)) < 0" using pos by linarith
  then show ?thesis by (simp add: passwordPiece_def Let_def)
qed

lemma concat_map_segment:
  assumes "i < n"
  shows "concat (map f [0..<n]) = concat (map f [0..<i]) @ f i @ concat (map f [Suc i..<n])"
proof -
  have "[0..<n] = [0..<i] @ [i..<n]"
    using assms upt_add_eq_append [of 0 i "n - i"] by simp
  also have "[i..<n] = i # [Suc i..<n]"
    using assms by (rule upt_conv_Cons)
  finally have "[0..<n] = [0..<i] @ i # [Suc i..<n]" .
  then show ?thesis by simp
qed

lemma generatePassword_garbage:
  assumes "length arr = 32" and "charsetOf f \<noteq> []" and "32 < pwLengthOf (pwLengthValue f)"
  shows "\<exists>pre post. generatePassword f arr = PwText (pre @ ''undefined'' @ post)"
proof -
  let ?n = "pwLengthOf (pwLengthValue f)"
  let ?i = "if ?n = 64 then 1 else 0 :: nat"
  have le: "?n \<le> 64" by (auto simp: pwLengthOf_def max_def min_def)
  have i: "?i < ?n" using assms(3) by simp
  have "passwordPiece (charsetOf f) arr ?n ?i = ''undefined''"
    using assms(1,3) le by (intro passwordPiece_undefined) auto
  then have "concat (map (passwordPiece (charsetOf f) arr ?n) [0..<?n])
      = concat (map (passwordPiece (charsetOf f) arr ?n) [0..<?i]) @ ''undefined'' @
        concat (map (passwordPiece (charsetOf f) arr ?n) [Suc ?i..<?n])"
    using concat_map_segment [OF i, of "passwordPiece (charsetOf f) arr ?n"] by simp
  moreover have "generatePassword f arr
      = PwText (concat (map (passwordPiece (charsetOf f) arr ?n) [0..<?n]))"
    using assms(1,2) by (simp add: generatePassword_def Let_def)
  ultimately show ?thesis by metis
qed

text \<open>
  Claim C8, at a pool of 32 bytes and a password of 33 characters. The pool holds fewer
  bytes than the password takes, yet the guard of line 440 lets the request pass. The
  index of line 460 is then negative for the first character, the read gives
  \<^verbatim>\<open>undefined\<close>, and the password starts with that word: the method returns garbage
  where the claim has the status for missing data. \<open>generatePassword_garbage\<close> above
  shows the same for every pool of 32 bytes and every length above 32.
\<close>

theorem password_garbage_on_short_pool:
  "length bytes32 = 32 \<and> pwLengthOf (Some 33) = 33 \<and>
   generatePassword (lowerOnly (Some 33)) bytes32 = PwText ''undefinedabcdefghijklmnopqrstuvwxyzabcdef''"
  by (simp add: generatePassword_def lowerOnly_def bytes32_def charsetOf_def pwLengthOf_def
      orDefault_def passwordPiece_def jsRem_def Let_def upt_rec [of _ "numeral _"])

text \<open>
  The bounds of the three sizes, and the two errors of configuration once the pool holds
  32 bytes.
\<close>

lemma clamped:
  "8 \<le> pwLengthOf v \<and> pwLengthOf v \<le> 64"
  "1 \<le> numCountOf v \<and> numCountOf v \<le> 10000"
  "1 \<le> fileSizeOf v \<and> fileSizeOf v \<le> 10485760"
  by (auto simp: pwLengthOf_def numCountOf_def fileSizeOf_def max_def min_def)

lemma clamps_nonzero:
  "n \<noteq> 0 \<Longrightarrow> int (pwLengthOf (Some n)) = max 8 (min 64 n)"
  "n \<noteq> 0 \<Longrightarrow> int (numCountOf (Some n)) = max 1 (min 10000 n)"
  "n \<noteq> 0 \<Longrightarrow> int (fileSizeOf (Some n)) = max 1 (min 10485760 n)"
  by (simp_all add: pwLengthOf_def numCountOf_def fileSizeOf_def orDefault_def)

lemma generatePassword_no_charset:
  "charsetOf f = [] \<Longrightarrow>
   generatePassword f arr = (if length arr < 32 then PwNotEnoughData else PwNoCharset)"
  by (simp add: generatePassword_def)

lemma generateNumbers_range_error:
  "orDefault (numMinValue f) 0 \<ge> orDefault (numMaxValue f) 255 \<Longrightarrow>
   generateNumbers f arr = (if length arr < 32 then NumNotEnoughData else NumRangeError)"
  by (simp add: generateNumbers_def Let_def)

text \<open>
  Claim C9, at the entries min = 5 and max = 0. \<^verbatim>\<open>parseInt("0") || 255\<close> is 255, so the
  check of line 994 does not fire and numbers between 5 and 255 are generated where the
  claim has an error; with max = 4 the error is reported. The same reading of an entry 0
  as a missing entry replaces a length, a count or a size of 0 by the default, not by the
  lower bound.
\<close>

theorem zero_max_read_as_default:
  "generateNumbers (rangeForm (Some 5) (Some 0)) bytes32 = NumValues [5, 6, 7] \<and>
   generateNumbers (rangeForm (Some 5) (Some 4)) bytes32 = NumRangeError \<and>
   pwLengthOf (Some 0) = 16 \<and> numCountOf (Some 0) = 100 \<and> fileSizeOf (Some 0) = 1024"
  by (simp add: generateNumbers_def rangeForm_def bytes32_def numCountOf_def pwLengthOf_def
      fileSizeOf_def orDefault_def jsRem_def Let_def upt_rec [of _ "numeral _"])

end
